theory Spec2Isabelle
  imports Complex_Main "HOL-Library.Word" "HOL-Library.AList"
begin

section \<open>JavaScript values used by \<open>src/jsutils/suggestionList.js\<close>\<close>

text \<open>
  A JavaScript string is a sequence of 16-bit code units; \<open>length\<close> counts code units and
  \<open>===\<close> on strings is equality of the sequences.

  A JavaScript number is modelled as \<open>int option\<close>. \<open>Some n\<close> is the integer \<open>n\<close>; \<open>None\<close>
  stands for \<open>NaN\<close> and for \<open>undefined\<close>, which every use in the source converts to \<open>NaN\<close>
  (\<open>undefined + 1\<close>, \<open>Math.min(undefined, x)\<close>, \<open>undefined <= t\<close>). All numbers the program
  computes are string lengths and sums of them with small constants, far below \<open>2^53\<close>, so
  integer arithmetic is exact. String lengths stay below \<open>2^32 - 1\<close> in every engine, so
  \<open>new Array(input.length + 1)\<close> always yields an array.
\<close>

type_synonym codeunit = "16 word"
type_synonym jsstring = "codeunit list"
type_synonym number = "int option"

definition str :: "string \<Rightarrow> jsstring" where
  \<comment> \<open>the JavaScript string literal with the given (Latin-1) characters\<close>
  "str s = map (\<lambda>c. of_nat (of_char c)) s"

definition num_add :: "number \<Rightarrow> number \<Rightarrow> number" where
  \<comment> \<open>\<open>x + y\<close> on numbers\<close>
  "num_add x y = (case (x, y) of (Some m, Some n) \<Rightarrow> Some (m + n) | _ \<Rightarrow> None)"

definition num_sub :: "number \<Rightarrow> number \<Rightarrow> number" where
  \<comment> \<open>\<open>x - y\<close> on numbers\<close>
  "num_sub x y = (case (x, y) of (Some m, Some n) \<Rightarrow> Some (m - n) | _ \<Rightarrow> None)"

definition math_min :: "number \<Rightarrow> number \<Rightarrow> number" where
  \<comment> \<open>\<open>Math.min(x, y)\<close>: \<open>NaN\<close> as soon as one argument is\<close>
  "math_min x y = (case (x, y) of (Some m, Some n) \<Rightarrow> Some (min m n) | _ \<Rightarrow> None)"

definition math_min3 :: "number \<Rightarrow> number \<Rightarrow> number \<Rightarrow> number" where
  \<comment> \<open>\<open>Math.min(x, y, z)\<close>\<close>
  "math_min3 x y z = math_min (math_min x y) z"

definition num_le :: "number \<Rightarrow> real \<Rightarrow> bool" where
  \<comment> \<open>\<open>x <= t\<close>: false when \<open>x\<close> is \<open>NaN\<close>\<close>
  "num_le x t = (case x of Some n \<Rightarrow> real_of_int n \<le> t | None \<Rightarrow> False)"

definition char_at :: "jsstring \<Rightarrow> nat \<Rightarrow> codeunit option" where
  \<comment> \<open>\<open>s[i]\<close>: \<open>undefined\<close> outside the string\<close>
  "char_at s i = (if i < length s then Some (s ! i) else None)"

definition arr_get :: "number list \<Rightarrow> nat \<Rightarrow> number" where
  \<comment> \<open>\<open>xs[i]\<close> on an array: \<open>undefined\<close> outside the array\<close>
  "arr_get xs i = (if i < length xs then xs ! i else None)"

definition arr_set :: "number list \<Rightarrow> nat \<Rightarrow> number \<Rightarrow> number list" where
  \<comment> \<open>\<open>xs[i] = v\<close> on an array: a write past the end extends the array, leaving holes\<close>
  "arr_set xs i v =
     (if i < length xs then xs[i := v] else xs @ replicate (i - length xs) None @ [v])"

section \<open>The distance engine: class \<open>LexicalDistance\<close>\<close>

text \<open>
  \<open>String.prototype.toLowerCase\<close> is a built-in whose Unicode tables are not part of the
  repository: the engine takes it as the parameter \<open>lc\<close>, and every general theorem below
  holds for every such function. \<open>toLowerCase\<close> below gives the built-in's result on the
  code units it lists: ASCII and Latin-1 capitals move up by \<open>0x20\<close>, and U+0130 (capital I
  with dot above) becomes the two code units U+0069 U+0307, a mapping of the Unicode special
  casing table, which makes the string longer. It is used at concrete inputs made of code
  units below U+0100 and of U+0130 only. The method \<open>measure\<close> is \<open>measure_ld\<close> here.
\<close>

definition toLowerCase_unit :: "codeunit \<Rightarrow> codeunit list" where
  "toLowerCase_unit c =
     (if 0x41 \<le> c \<and> c \<le> 0x5A then [c + 0x20]
      else if 0xC0 \<le> c \<and> c \<le> 0xDE \<and> c \<noteq> 0xD7 then [c + 0x20]
      else if c = 0x130 then [0x69, 0x307]
      else [c])"

definition toLowerCase :: "jsstring \<Rightarrow> jsstring" where
  "toLowerCase s = concat (map toLowerCase_unit s)"

record LexicalDistance =
  ld_input :: jsstring
  ld_inputLowerCase :: jsstring
  ld_rows :: "number list list"

definition new_LexicalDistance :: "(jsstring \<Rightarrow> jsstring) \<Rightarrow> jsstring \<Rightarrow> LexicalDistance" where
  \<comment> \<open>the constructor\<close>
  "new_LexicalDistance lc input =
     \<lparr> ld_input = input,
       ld_inputLowerCase = lc input,
       ld_rows = [replicate (length input + 1) (Some 0),
                  replicate (length input + 1) (Some 0),
                  replicate (length input + 1) (Some 0)] \<rparr>"

text \<open>
  The body of the inner loop of \<open>measure\<close>, for row \<open>i\<close> and column \<open>j\<close>. \<open>upRow\<close> and
  \<open>currentRow\<close> are references to \<open>rows[(i - 1) % 3]\<close> and \<open>rows[i % 3]\<close>, so the model reads
  and writes them through \<open>rows\<close>. The operands behind \<open>i > 1 && j > 1 &&\<close> are evaluated by
  the source only when both guards hold, which is where \<open>i - 2\<close> and \<open>j - 2\<close> on \<open>nat\<close> are
  the source's values.
\<close>

definition measure_cell ::
  "jsstring \<Rightarrow> jsstring \<Rightarrow> nat \<Rightarrow> nat \<Rightarrow> number list list \<Rightarrow> number list list" where
  "measure_cell a b i j rows =
     (let upRow = rows ! ((i - 1) mod 3);
          currentRow = rows ! (i mod 3);
          cost = (if char_at a (i - 1) = char_at b (j - 1) then Some 0 else Some 1);
          currentCell = math_min3
            (num_add (arr_get upRow j) (Some 1))
            (num_add (arr_get currentRow (j - 1)) (Some 1))
            (num_add (arr_get upRow (j - 1)) cost);
          currentCell' =
            (if i > 1 \<and> j > 1 \<and> char_at a (i - 1) = char_at b (j - 2)
                \<and> char_at a (i - 2) = char_at b (j - 1)
             then let doubleDiagonalCell = arr_get (rows ! ((i - 2) mod 3)) (j - 2)
                  in math_min currentCell (num_add doubleDiagonalCell (Some 1))
             else currentCell)
      in rows[i mod 3 := arr_set currentRow j currentCell'])"

definition measure_row ::
  "jsstring \<Rightarrow> jsstring \<Rightarrow> nat \<Rightarrow> number list list \<Rightarrow> number list list" where
  \<comment> \<open>the body of the outer loop: \<open>currentRow[0] = i\<close>, then columns \<open>1 .. bLength\<close>\<close>
  "measure_row a b i rows =
     fold (measure_cell a b i) [1..<Suc (length b)]
       (rows[i mod 3 := arr_set (rows ! (i mod 3)) 0 (Some (int i))])"

definition measure_rows :: "jsstring \<Rightarrow> jsstring \<Rightarrow> number list list \<Rightarrow> number list list" where
  \<comment> \<open>both loops: \<open>rows[0][j] = j\<close> for \<open>j = 0 .. bLength\<close>, then rows \<open>1 .. aLength\<close>\<close>
  "measure_rows a b rows =
     fold (measure_row a b) [1..<Suc (length a)]
       (rows[0 := fold (\<lambda>j row. arr_set row j (Some (int j))) [0..<Suc (length b)] (rows ! 0)])"

definition measure_ld ::
  "(jsstring \<Rightarrow> jsstring) \<Rightarrow> LexicalDistance \<Rightarrow> jsstring \<Rightarrow> number \<times> LexicalDistance" where
  \<comment> \<open>the method \<open>measure\<close> of the class: the returned number and the engine with its rows as the call leaves them\<close>
  "measure_ld lc self option =
     (if ld_input self = option then (Some 0, self)
      else let optionLowerCase = lc option in
        if ld_inputLowerCase self = optionLowerCase then (Some 1, self)
        else let a = optionLowerCase;
                 b = ld_inputLowerCase self;
                 aLength = length a;
                 bLength = length b;
                 rows = measure_rows a b (ld_rows self)
             in (arr_get (rows ! (aLength mod 3)) bLength, self\<lparr>ld_rows := rows\<rparr>))"


definition measured :: "(jsstring \<Rightarrow> jsstring) \<Rightarrow> jsstring \<Rightarrow> jsstring \<Rightarrow> number" where
  \<comment> \<open>\<open>new LexicalDistance(input).measure(option)\<close>\<close>
  "measured lc input option = fst (measure_ld lc (new_LexicalDistance lc input) option)"

definition measure_seq ::
  "(jsstring \<Rightarrow> jsstring) \<Rightarrow> LexicalDistance \<Rightarrow> jsstring list \<Rightarrow> LexicalDistance" where
  \<comment> \<open>the engine after \<open>measure\<close> has been called on each of the strings in turn\<close>
  "measure_seq lc self options = fold (\<lambda>option ld. snd (measure_ld lc ld option)) options self"

section \<open>The ranker: function \<open>suggestionList\<close>\<close>

text \<open>
  \<open>optionsByDistance\<close> is an object without prototype: its own properties, in the order of
  their creation. Writing an existing key replaces the value in place; a new key goes to the
  end. Reading a missing key gives \<open>undefined\<close>.
\<close>

type_synonym jsobject = "(jsstring \<times> number) list"

definition obj_set :: "jsobject \<Rightarrow> jsstring \<Rightarrow> number \<Rightarrow> jsobject" where
  "obj_set obj k v = AList.update k v obj"

definition obj_get :: "jsobject \<Rightarrow> jsstring \<Rightarrow> number" where
  "obj_get obj k = (case map_of obj k of Some v \<Rightarrow> v | None \<Rightarrow> None)"

text \<open>
  \<open>Object.keys\<close> lists the keys that are array indices (canonical decimal numerals below
  \<open>2^32 - 1\<close>) in ascending numeric order, then the other keys in creation order.
\<close>

definition is_digit :: "codeunit \<Rightarrow> bool" where
  "is_digit c = (0x30 \<le> c \<and> c \<le> 0x39)"

definition index_value :: "jsstring \<Rightarrow> int" where
  "index_value s = foldl (\<lambda>n c. 10 * n + (uint c - 48)) 0 s"

definition is_array_index :: "jsstring \<Rightarrow> bool" where
  "is_array_index s =
     (s \<noteq> [] \<and> list_all is_digit s \<and> (hd s \<noteq> 0x30 \<or> length s = 1)
      \<and> index_value s < 2 ^ 32 - 1)"

definition object_keys :: "jsobject \<Rightarrow> jsstring list" where
  "object_keys obj =
     (let ks = map fst obj
      in sort_key index_value (filter is_array_index ks)
         @ filter (\<lambda>k. \<not> is_array_index k) ks)"

text \<open>
  \<open>Array.prototype.sort(comparefn)\<close>. The language fixes the result for a consistent
  comparator: the stable sorted permutation. It leaves the algorithm to the engine; the
  model is the stable insertion sort. A comparator result \<open>NaN\<close> counts as \<open>0\<close>.
\<close>

definition sort_compare :: "('a \<Rightarrow> 'a \<Rightarrow> number) \<Rightarrow> 'a \<Rightarrow> 'a \<Rightarrow> int" where
  "sort_compare comparefn x y = (case comparefn x y of Some v \<Rightarrow> v | None \<Rightarrow> 0)"

fun sort_insert :: "('a \<Rightarrow> 'a \<Rightarrow> int) \<Rightarrow> 'a \<Rightarrow> 'a list \<Rightarrow> 'a list" where
  "sort_insert c x [] = [x]"
| "sort_insert c x (y # ys) = (if c x y < 0 then x # y # ys else y # sort_insert c x ys)"

definition array_sort :: "('a \<Rightarrow> 'a \<Rightarrow> number) \<Rightarrow> 'a list \<Rightarrow> 'a list" where
  "array_sort comparefn xs = foldl (\<lambda>sorted x. sort_insert (sort_compare comparefn) x sorted) [] xs"

text \<open>
  \<open>String.prototype.localeCompare\<close> depends on the host's collation data: the ranker takes
  it as the parameter \<open>localeCompare\<close>, a function to a negative, zero or positive integer.
  A comparator is consistent when it is antisymmetric and transitive, as every collation
  is. \<open>codeunit_compare\<close>, the order of the code units, is the consistent comparator used
  at concrete inputs.
\<close>

definition consistent_compare :: "('a \<Rightarrow> 'a \<Rightarrow> int) \<Rightarrow> bool" where
  "consistent_compare c =
     ((\<forall>x y. (c x y < 0) = (0 < c y x)) \<and> (\<forall>x y z. c x y \<le> 0 \<and> c y z \<le> 0 \<longrightarrow> c x z \<le> 0))"

fun codeunit_compare :: "jsstring \<Rightarrow> jsstring \<Rightarrow> int" where
  "codeunit_compare [] [] = 0"
| "codeunit_compare [] (y # ys) = - 1"
| "codeunit_compare (x # xs) [] = 1"
| "codeunit_compare (x # xs) (y # ys) =
     (if x < y then - 1 else if y < x then 1 else codeunit_compare xs ys)"

definition suggestion_step ::
  "(jsstring \<Rightarrow> jsstring) \<Rightarrow> real \<Rightarrow> jsstring \<Rightarrow> jsobject \<times> LexicalDistance
     \<Rightarrow> jsobject \<times> LexicalDistance" where
  \<comment> \<open>the body of the loop over \<open>options\<close>\<close>
  "suggestion_step lc inputThreshold option state =
     (let (optionsByDistance, lexicalDistance) = state;
          (distance, lexicalDistance') = measure_ld lc lexicalDistance option;
          threshold = max (max inputThreshold (real (length option) / 2)) 1
      in (if num_le distance threshold then obj_set optionsByDistance option distance
          else optionsByDistance,
          lexicalDistance'))"

definition suggestion_loop ::
  "(jsstring \<Rightarrow> jsstring) \<Rightarrow> jsstring \<Rightarrow> jsstring list \<Rightarrow> jsobject \<times> LexicalDistance" where
  \<comment> \<open>\<open>optionsByDistance\<close> and the engine after the loop over \<open>options\<close>\<close>
  "suggestion_loop lc input options =
     (let optionsByDistance = [];
          lexicalDistance = new_LexicalDistance lc input;
          inputThreshold = real (length input) / 2
      in fold (suggestion_step lc inputThreshold) options (optionsByDistance, lexicalDistance))"

definition suggestionList ::
  "(jsstring \<Rightarrow> jsstring) \<Rightarrow> (jsstring \<Rightarrow> jsstring \<Rightarrow> int) \<Rightarrow> jsstring \<Rightarrow> jsstring list
     \<Rightarrow> jsstring list" where
  "suggestionList lc localeCompare input options =
     (let optionsByDistance = fst (suggestion_loop lc input options)
      in array_sort
           (\<lambda>a b. let distanceDiff = num_sub (obj_get optionsByDistance a) (obj_get optionsByDistance b)
                  in if distanceDiff \<noteq> Some 0 then distanceDiff else Some (localeCompare a b))
           (object_keys optionsByDistance))"


section \<open>The operations that can throw\<close>

text \<open>
  On a string and an array of strings, the operations of the source that can throw are the
  property accesses on a row of \<open>rows\<close>: \<open>rows[k][j]\<close>, \<open>upRow[j]\<close>, \<open>currentRow[j] = v\<close>
  raise a \<open>TypeError\<close> when \<open>rows[k]\<close> is \<open>undefined\<close>. Reading a string or an array
  outside its range gives \<open>undefined\<close>, and the array construction yields an array (see
  above), so these are not exceptions. The functions of this section are \<open>measure\<close> and
  \<open>suggestionList\<close> once more, statement by statement in the order of the source, with
  the exception as the result \<open>Inl TypeError\<close>, which ends the call as it does in the source.
\<close>

datatype exn = TypeError

definition andthen :: "exn + 'a \<Rightarrow> ('a \<Rightarrow> exn + 'b) \<Rightarrow> exn + 'b" where
  \<comment> \<open>the next statement runs on the value of the first, unless the first has thrown\<close>
  "andthen m f = (case m of Inl e \<Rightarrow> Inl e | Inr x \<Rightarrow> f x)"

fun fold_exn :: "('a \<Rightarrow> 's \<Rightarrow> exn + 's) \<Rightarrow> 'a list \<Rightarrow> 's \<Rightarrow> exn + 's" where
  \<comment> \<open>a loop whose body can throw\<close>
  "fold_exn f [] s = Inr s"
| "fold_exn f (x # xs) s = andthen (f x s) (fold_exn f xs)"

definition row_read :: "number list list \<Rightarrow> nat \<Rightarrow> nat \<Rightarrow> exn + number" where
  \<comment> \<open>\<open>rows[k][j]\<close>\<close>
  "row_read rows k j = (if k < length rows then Inr (arr_get (rows ! k) j) else Inl TypeError)"

definition row_write :: "number list list \<Rightarrow> nat \<Rightarrow> nat \<Rightarrow> number \<Rightarrow> exn + number list list" where
  \<comment> \<open>\<open>rows[k][j] = v\<close>\<close>
  "row_write rows k j v =
     (if k < length rows then Inr (rows[k := arr_set (rows ! k) j v]) else Inl TypeError)"

definition measure_cell_exn ::
  "jsstring \<Rightarrow> jsstring \<Rightarrow> nat \<Rightarrow> nat \<Rightarrow> number list list \<Rightarrow> exn + number list list" where
  "measure_cell_exn a b i j rows =
     (let cost = (if char_at a (i - 1) = char_at b (j - 1) then Some 0 else Some 1)
      in andthen (row_read rows ((i - 1) mod 3) j) (\<lambda>up_j.
         andthen (row_read rows (i mod 3) (j - 1)) (\<lambda>current_j1.
         andthen (row_read rows ((i - 1) mod 3) (j - 1)) (\<lambda>up_j1.
           let currentCell = math_min3
                 (num_add up_j (Some 1)) (num_add current_j1 (Some 1)) (num_add up_j1 cost)
           in andthen
                (if i > 1 \<and> j > 1 \<and> char_at a (i - 1) = char_at b (j - 2)
                    \<and> char_at a (i - 2) = char_at b (j - 1)
                 then andthen (row_read rows ((i - 2) mod 3) (j - 2)) (\<lambda>doubleDiagonalCell.
                        Inr (math_min currentCell (num_add doubleDiagonalCell (Some 1))))
                 else Inr currentCell)
                (\<lambda>currentCell'. row_write rows (i mod 3) j currentCell')))))"

definition measure_row_exn ::
  "jsstring \<Rightarrow> jsstring \<Rightarrow> nat \<Rightarrow> number list list \<Rightarrow> exn + number list list" where
  "measure_row_exn a b i rows =
     andthen (row_write rows (i mod 3) 0 (Some (int i)))
       (fold_exn (measure_cell_exn a b i) [1..<Suc (length b)])"

definition measure_rows_exn ::
  "jsstring \<Rightarrow> jsstring \<Rightarrow> number list list \<Rightarrow> exn + number list list" where
  "measure_rows_exn a b rows =
     andthen (fold_exn (\<lambda>j rows. row_write rows 0 j (Some (int j))) [0..<Suc (length b)] rows)
       (fold_exn (measure_row_exn a b) [1..<Suc (length a)])"

definition measure_exn ::
  "(jsstring \<Rightarrow> jsstring) \<Rightarrow> LexicalDistance \<Rightarrow> jsstring \<Rightarrow> exn + number \<times> LexicalDistance" where
  "measure_exn lc self option =
     (if ld_input self = option then Inr (Some 0, self)
      else let optionLowerCase = lc option in
        if ld_inputLowerCase self = optionLowerCase then Inr (Some 1, self)
        else let a = optionLowerCase;
                 b = ld_inputLowerCase self;
                 aLength = length a;
                 bLength = length b
             in andthen (measure_rows_exn a b (ld_rows self)) (\<lambda>rows.
                andthen (row_read rows (aLength mod 3) bLength) (\<lambda>result.
                  Inr (result, self\<lparr>ld_rows := rows\<rparr>))))"

definition suggestion_step_exn ::
  "(jsstring \<Rightarrow> jsstring) \<Rightarrow> real \<Rightarrow> jsstring \<Rightarrow> jsobject \<times> LexicalDistance
     \<Rightarrow> exn + jsobject \<times> LexicalDistance" where
  "suggestion_step_exn lc inputThreshold option state =
     (let (optionsByDistance, lexicalDistance) = state
      in andthen (measure_exn lc lexicalDistance option) (\<lambda>(distance, lexicalDistance').
           let threshold = max (max inputThreshold (real (length option) / 2)) 1
           in Inr (if num_le distance threshold then obj_set optionsByDistance option distance
                   else optionsByDistance,
                   lexicalDistance')))"

definition suggestionList_exn ::
  "(jsstring \<Rightarrow> jsstring) \<Rightarrow> (jsstring \<Rightarrow> jsstring \<Rightarrow> int) \<Rightarrow> jsstring \<Rightarrow> jsstring list
     \<Rightarrow> exn + jsstring list" where
  "suggestionList_exn lc localeCompare input options =
     (let optionsByDistance = [];
          lexicalDistance = new_LexicalDistance lc input;
          inputThreshold = real (length input) / 2
      in andthen
           (fold_exn (suggestion_step_exn lc inputThreshold) options
              (optionsByDistance, lexicalDistance))
           (\<lambda>(optionsByDistance, lexicalDistance).
              Inr (array_sort
                (\<lambda>a b. let distanceDiff =
                         num_sub (obj_get optionsByDistance a) (obj_get optionsByDistance b)
                       in if distanceDiff \<noteq> Some 0 then distanceDiff else Some (localeCompare a b))
                (object_keys optionsByDistance))))"

section \<open>Reference notions\<close>

text \<open>
  The edits that the documentation of \<open>LexicalDistance\<close> and the specification count: the
  insertion, the deletion and the substitution of one character, and the swap of two
  adjacent characters.
\<close>

inductive edit :: "'a list \<Rightarrow> 'a list \<Rightarrow> bool" where
  insertion: "edit (xs @ ys) (xs @ c # ys)"
| deletion: "edit (xs @ c # ys) (xs @ ys)"
| substitution: "edit (xs @ c # ys) (xs @ d # ys)"
| transposition: "edit (xs @ c # d # ys) (xs @ d # c # ys)"

definition min_edits :: "'a list \<Rightarrow> 'a list \<Rightarrow> nat" where
  \<comment> \<open>the least number of edits that lead from the one string to the other\<close>
  "min_edits xs ys = (LEAST n. (edit ^^ n) xs ys)"

text \<open>The plain Levenshtein distance, which has no transposition.\<close>

fun plain_levenshtein :: "'a list \<Rightarrow> 'a list \<Rightarrow> nat" where
  "plain_levenshtein [] ys = length ys"
| "plain_levenshtein (x # xs) [] = Suc (length xs)"
| "plain_levenshtein (x # xs) (y # ys) =
     min (min (plain_levenshtein xs (y # ys) + 1) (plain_levenshtein (x # xs) ys + 1))
         (plain_levenshtein xs ys + (if x = y then 0 else 1))"

text \<open>
  The full matrix that the three rows of \<open>measure\<close> slide over: \<open>osa a b i j\<close> is the cell
  of row \<open>i\<close> and column \<open>j\<close>, given by the recurrences of the two loops. \<open>osa_swap\<close> is the
  test that guards the transposition, at row \<open>i + 1\<close> and column \<open>j + 1\<close>.
\<close>

definition osa_swap :: "jsstring \<Rightarrow> jsstring \<Rightarrow> nat \<Rightarrow> nat \<Rightarrow> bool" where
  "osa_swap a b i j = (0 < i \<and> 0 < j \<and> a ! i = b ! (j - 1) \<and> a ! (i - 1) = b ! j)"

fun osa :: "jsstring \<Rightarrow> jsstring \<Rightarrow> nat \<Rightarrow> nat \<Rightarrow> nat" where
  "osa a b 0 j = j"
| "osa a b (Suc i) 0 = Suc i"
| "osa a b (Suc i) (Suc j) =
     (let c = min (min (osa a b i (Suc j) + 1) (osa a b (Suc i) j + 1))
                  (osa a b i j + (if a ! i = b ! j then 0 else 1))
      in if 0 < i \<and> 0 < j \<and> a ! i = b ! (j - 1) \<and> a ! (i - 1) = b ! j
         then min c (osa a b (i - 1) (j - 1) + 1) else c)"

text \<open>
  \<open>distance_of\<close> is the value of \<open>measure\<close> in terms of the matrix, \<open>in_threshold\<close> the test
  of the ranker's loop on it, and \<open>rank_compare\<close> the comparator of the final sort on it.
\<close>

definition distance_of :: "(jsstring \<Rightarrow> jsstring) \<Rightarrow> jsstring \<Rightarrow> jsstring \<Rightarrow> nat" where
  "distance_of lc input option =
     (if input = option then 0
      else if lc input = lc option then 1
      else osa (lc option) (lc input) (length (lc option)) (length (lc input)))"

definition in_threshold :: "(jsstring \<Rightarrow> jsstring) \<Rightarrow> jsstring \<Rightarrow> jsstring \<Rightarrow> bool" where
  "in_threshold lc input option =
     (real (distance_of lc input option)
        \<le> max (max (real (length input) / 2) (real (length option) / 2)) 1)"

definition rank_compare ::
  "(jsstring \<Rightarrow> jsstring) \<Rightarrow> (jsstring \<Rightarrow> jsstring \<Rightarrow> int) \<Rightarrow> jsstring
     \<Rightarrow> jsstring \<Rightarrow> jsstring \<Rightarrow> int" where
  "rank_compare lc localeCompare input a b =
     (if int (distance_of lc input a) - int (distance_of lc input b) \<noteq> 0
      then int (distance_of lc input a) - int (distance_of lc input b)
      else localeCompare a b)"

text \<open>The invariants of the loops of \<open>measure\<close> and of the engine across calls.\<close>

definition cell :: "number list list \<Rightarrow> nat \<Rightarrow> nat \<Rightarrow> number" where
  "cell rows r j = arr_get (rows ! r) j"

definition row_ok :: "jsstring \<Rightarrow> jsstring \<Rightarrow> number list list \<Rightarrow> nat \<Rightarrow> nat \<Rightarrow> bool" where
  \<comment> \<open>the first \<open>k\<close> cells of the buffer row for matrix row \<open>i\<close> hold that row\<close>
  "row_ok a b rows i k = (\<forall>j<k. cell rows (i mod 3) j = Some (int (osa a b i j)))"

definition inner_inv ::
  "jsstring \<Rightarrow> jsstring \<Rightarrow> nat \<Rightarrow> number list list \<Rightarrow> number list list \<Rightarrow> nat \<Rightarrow> bool" where
  \<comment> \<open>after column \<open>k\<close> of row \<open>i\<close>: only the current row has changed, and it is right so far\<close>
  "inner_inv a b i rows0 rows k =
     (length rows = length rows0 \<and> (\<forall>r. r \<noteq> i mod 3 \<longrightarrow> rows ! r = rows0 ! r)
      \<and> row_ok a b rows i (Suc k))"

definition outer_inv :: "jsstring \<Rightarrow> jsstring \<Rightarrow> number list list \<Rightarrow> nat \<Rightarrow> bool" where
  \<comment> \<open>after row \<open>i\<close>: the buffer holds rows \<open>i\<close> and \<open>i - 1\<close> of the matrix\<close>
  "outer_inv a b rows i =
     (length rows = 3 \<and> row_ok a b rows i (Suc (length b))
      \<and> (0 < i \<longrightarrow> row_ok a b rows (i - 1) (Suc (length b))))"

definition engine_for :: "(jsstring \<Rightarrow> jsstring) \<Rightarrow> jsstring \<Rightarrow> LexicalDistance \<Rightarrow> bool" where
  \<comment> \<open>an engine constructed with \<open>input\<close>, whatever its three rows hold\<close>
  "engine_for lc input ld =
     (ld_input ld = input \<and> ld_inputLowerCase ld = lc input \<and> length (ld_rows ld) = 3)"


section \<open>The rows of \<open>measure\<close> hold the matrix\<close>

text \<open>
  Under \<open>arr_get\<close>, an array is a function from indices to numbers, and \<open>arr_set\<close> changes it
  at one index, inside or past the end.
\<close>

lemma arr_get_set: "arr_get (arr_set xs i v) k = (if k = i then v else arr_get xs k)"
  by (auto simp: arr_get_def arr_set_def nth_append)

lemma cell_update:
  "r < length rows \<Longrightarrow> cell (rows[r := arr_set (rows ! r) j v]) r' j' =
     (if r' = r \<and> j' = j then v else cell rows r' j')"
  by (auto simp: cell_def arr_get_set nth_list_update)

lemma mod3_neq1: "0 < i \<Longrightarrow> (i - 1) mod 3 \<noteq> i mod (3::nat)"
  by (cases i) (simp_all add: mod_Suc)
lemma mod3_neq2: "1 < i \<Longrightarrow> (i - 2) mod 3 \<noteq> i mod (3::nat)"
proof -
  assume "1 < i"
  then obtain k where "i = Suc (Suc k)" by (cases i; cases "i - 1") auto
  then show ?thesis by (simp add: mod_Suc)
qed

lemma osa_col0 [simp]: "osa a b i 0 = i"
  by (cases i) simp_all

lemma osa_Suc_swap:
  "osa_swap a b i j \<Longrightarrow> osa a b (Suc i) (Suc j) =
     min (min (min (osa a b i (Suc j) + 1) (osa a b (Suc i) j + 1))
              (osa a b i j + (if a ! i = b ! j then 0 else 1)))
         (osa a b (i - 1) (j - 1) + 1)"
  by (simp add: osa_swap_def Let_def)

lemma osa_Suc_plain:
  "\<not> osa_swap a b i j \<Longrightarrow> osa a b (Suc i) (Suc j) =
     min (min (osa a b i (Suc j) + 1) (osa a b (Suc i) j + 1))
         (osa a b i j + (if a ! i = b ! j then 0 else 1))"
  unfolding osa_swap_def by (simp only: osa.simps Let_def if_False)

lemma osa_swap_sym: "osa_swap a b i j = osa_swap b a j i"
  by (auto simp: osa_swap_def)

lemma min3_cells:
  "math_min3 (num_add (Some (int x)) (Some 1)) (num_add (Some (int y)) (Some 1))
      (num_add (Some (int z)) (if c then Some 0 else Some 1))
   = Some (int (min (min (x + 1) (y + 1)) (z + (if c then 0 else 1))))"
  by (cases c) (auto simp: math_min3_def math_min_def num_add_def min_def)

lemma min_cells:
  "math_min (Some (int v)) (num_add (Some (int w)) (Some 1)) = Some (int (min v (w + 1)))"
  by (auto simp: math_min_def num_add_def min_def)

lemma measure_cell_cell:
  assumes i: "0 < i" "i \<le> length a" and j: "0 < j" "j \<le> length b"
    and up: "row_ok a b rows (i - 1) (Suc (length b))"
    and up2: "1 < i \<Longrightarrow> row_ok a b rows (i - 2) (Suc (length b))"
    and cur: "row_ok a b rows i j"
  shows "measure_cell a b i j rows =
           rows[i mod 3 := arr_set (rows ! (i mod 3)) j (Some (int (osa a b i j)))]"
proof -
  obtain i' j' where ij: "i = Suc i'" "j = Suc j'" using i j by (cases i; cases j) auto
  have c1: "arr_get (rows ! ((i - 1) mod 3)) j = Some (int (osa a b i' j))"
    using up j ij by (simp add: row_ok_def cell_def)
  have c2: "arr_get (rows ! (i mod 3)) (j - 1) = Some (int (osa a b i j'))"
    using cur ij by (simp add: row_ok_def cell_def)
  have c3: "arr_get (rows ! ((i - 1) mod 3)) (j - 1) = Some (int (osa a b i' j'))"
    using up j ij by (simp add: row_ok_def cell_def)
  have c4: "1 < i \<Longrightarrow> 1 < j \<Longrightarrow> arr_get (rows ! ((i - 2) mod 3)) (j - 2) = Some (int (osa a b (i' - 1) (j' - 1)))"
    using up2 j ij by (simp add: row_ok_def cell_def)
  have ch: "char_at a (i - 1) = char_at b (j - 1) \<longleftrightarrow> a ! i' = b ! j'"
    using i j ij by (simp add: char_at_def)
  have lt: "i - 1 < length a" "j - 1 < length b" "i - 2 < length a" "j - 2 < length b"
    using i j by simp_all
  have eqs: "i - 1 = i'" "j - 1 = j'" "i - 2 = i' - 1" "j - 2 = j' - 1"
    using ij by simp_all
  have ch2: "char_at a (i - 1) = char_at b (j - 2) \<longleftrightarrow> a ! i' = b ! (j' - 1)"
    using lt unfolding eqs by (simp add: char_at_def)
  have ch3: "char_at a (i - 2) = char_at b (j - 1) \<longleftrightarrow> a ! (i' - 1) = b ! j'"
    using lt unfolding eqs by (simp add: char_at_def)
  have sw: "(1 < i \<and> 1 < j \<and> a ! i' = b ! (j' - 1) \<and> a ! (i' - 1) = b ! j') = osa_swap a b i' j'"
    using ij by (auto simp: osa_swap_def)
  show ?thesis
  proof (cases "osa_swap a b i' j'")
    case True
    then have g: "1 < i" "1 < j" using ij by (simp_all add: osa_swap_def)
    have o: "osa a b i j = min (min (min (osa a b i' j + 1) (osa a b i j' + 1))
         (osa a b i' j' + (if a ! i' = b ! j' then 0 else 1))) (osa a b (i' - 1) (j' - 1) + 1)"
      unfolding ij by (rule osa_Suc_swap [OF True])
    show ?thesis
      unfolding measure_cell_def Let_def c1 c2 c3 ch ch2 ch3 min3_cells sw c4 [OF g]
      using True by (simp add: min_cells o)
  next
    case False
    have o: "osa a b i j = min (min (osa a b i' j + 1) (osa a b i j' + 1))
         (osa a b i' j' + (if a ! i' = b ! j' then 0 else 1))"
      unfolding ij by (rule osa_Suc_plain [OF False])
    show ?thesis
      unfolding measure_cell_def Let_def c1 c2 c3 ch ch2 ch3 min3_cells sw
      using False by (simp add: o)
  qed
qed

lemma row_ok_cong:
  "rows' ! (i mod 3) = rows ! (i mod 3) \<Longrightarrow> row_ok a b rows' i k = row_ok a b rows i k"
  by (simp add: row_ok_def cell_def)

lemma inner_loop:
  assumes len: "length rows0 = 3" and i: "0 < i" "i \<le> length a"
    and up: "row_ok a b rows0 (i - 1) (Suc (length b))"
    and up2: "1 < i \<Longrightarrow> row_ok a b rows0 (i - 2) (Suc (length b))"
  shows "k \<le> length b \<Longrightarrow>
    inner_inv a b i rows0
      (fold (measure_cell a b i) [1..<Suc k]
         (rows0[i mod 3 := arr_set (rows0 ! (i mod 3)) 0 (Some (int i))])) k"
proof (induction k)
  case 0
  show ?case using len by (simp add: inner_inv_def row_ok_def cell_update)
next
  case (Suc k)
  define start where "start = rows0[i mod 3 := arr_set (rows0 ! (i mod 3)) 0 (Some (int i))]"
  define rows where "rows = fold (measure_cell a b i) [1..<Suc k] start"
  have inv: "inner_inv a b i rows0 rows k" using Suc by (simp add: rows_def start_def)
  then have l: "length rows = 3" and fr: "\<And>r. r \<noteq> i mod 3 \<Longrightarrow> rows ! r = rows0 ! r"
    and cur: "row_ok a b rows i (Suc k)"
    using len by (simp_all add: inner_inv_def)
  have up': "row_ok a b rows (i - 1) (Suc (length b))"
    using up row_ok_cong [OF fr [OF mod3_neq1 [OF i(1)]]] by simp
  have up2': "1 < i \<Longrightarrow> row_ok a b rows (i - 2) (Suc (length b))"
    using up2 row_ok_cong [OF fr [OF mod3_neq2]] by simp
  have step: "measure_cell a b i (Suc k) rows =
      rows[i mod 3 := arr_set (rows ! (i mod 3)) (Suc k) (Some (int (osa a b i (Suc k))))]"
    using Suc.prems by (intro measure_cell_cell i up' up2' cur) simp_all
  have unf: "fold (measure_cell a b i) [1..<Suc (Suc k)] start = measure_cell a b i (Suc k) rows"
    by (simp add: rows_def)
  have r: "i mod 3 < length rows" using l by simp
  have "row_ok a b (measure_cell a b i (Suc k) rows) i (Suc (Suc k))"
    unfolding step row_ok_def cell_update [OF r]
    using cur by (simp add: row_ok_def less_Suc_eq)
  moreover have "\<forall>r. r \<noteq> i mod 3 \<longrightarrow> measure_cell a b i (Suc k) rows ! r = rows0 ! r"
    unfolding step using fr by simp
  moreover have "length (measure_cell a b i (Suc k) rows) = length rows0"
    unfolding step using l len by simp
  ultimately show ?case
    unfolding start_def [symmetric] unf inner_inv_def by simp
qed

lemma init_row:
  "arr_get (fold (\<lambda>j row. arr_set row j (Some (int j))) [0..<k] row) j' =
     (if j' < k then Some (int j') else arr_get row j')"
  by (induction k) (auto simp: arr_get_set less_Suc_eq)

lemma measure_row_inv:
  assumes inv: "outer_inv a b rows (i - 1)" and i: "0 < i" "i \<le> length a"
  shows "outer_inv a b (measure_row a b i rows) i"
proof -
  have len: "length rows = 3" and up: "row_ok a b rows (i - 1) (Suc (length b))"
    using inv by (simp_all add: outer_inv_def)
  have up2: "1 < i \<Longrightarrow> row_ok a b rows (i - 2) (Suc (length b))"
  proof -
    assume "1 < i"
    then have "0 < i - 1" "i - 1 - 1 = i - 2" by simp_all
    then show ?thesis using inv by (simp add: outer_inv_def)
  qed
  have "inner_inv a b i rows (measure_row a b i rows) (length b)"
    unfolding measure_row_def by (rule inner_loop [OF len i up up2]) simp_all
  then have l: "length (measure_row a b i rows) = 3"
    and fr: "measure_row a b i rows ! ((i - 1) mod 3) = rows ! ((i - 1) mod 3)"
    and cur: "row_ok a b (measure_row a b i rows) i (Suc (length b))"
    using len mod3_neq1 [OF i(1)] by (simp_all add: inner_inv_def)
  show ?thesis
    using l cur up row_ok_cong [OF fr] by (simp add: outer_inv_def)
qed

lemma outer_loop:
  assumes "outer_inv a b rows0 0"
  shows "k \<le> length a \<Longrightarrow> outer_inv a b (fold (measure_row a b) [1..<Suc k] rows0) k"
proof (induction k)
  case 0
  show ?case using assms by simp
next
  case (Suc k)
  then have "outer_inv a b (fold (measure_row a b) [1..<Suc k] rows0) (Suc k - 1)" by simp
  from measure_row_inv [OF this] Suc.prems show ?case by simp
qed

lemma measure_rows_inv:
  assumes "length rows = 3"
  shows "outer_inv a b (measure_rows a b rows) (length a)"
proof -
  define rows0 where
    "rows0 = rows[0 := fold (\<lambda>j row. arr_set row j (Some (int j))) [0..<Suc (length b)] (rows ! 0)]"
  have "cell rows0 0 j = Some (int j)" if "j < Suc (length b)" for j
    unfolding rows0_def cell_def using assms that by (simp add: init_row del: upt_Suc)
  then have "outer_inv a b rows0 0"
    using assms by (simp add: outer_inv_def row_ok_def rows0_def)
  from outer_loop [OF this, of "length a"] show ?thesis
    by (simp add: measure_rows_def rows0_def)
qed

lemma measure_rows_result:
  assumes "length rows = 3"
  shows "arr_get (measure_rows a b rows ! (length a mod 3)) (length b)
           = Some (int (osa a b (length a) (length b)))"
    and "length (measure_rows a b rows) = 3"
  using measure_rows_inv [OF assms, of a b] by (simp_all add: outer_inv_def row_ok_def cell_def)

section \<open>Properties of the matrix\<close>

lemma osa_diag: "osa a b (Suc i) (Suc j) \<le> Suc (osa a b i j)"
  by (simp add: Let_def min_le_iff_disj)

lemma osa_le_max: "osa a b i j \<le> max i j"
proof (induction a b i j rule: osa.induct)
  case (3 a b i j)
  have "osa a b (Suc i) (Suc j) \<le> Suc (osa a b i j)" by (rule osa_diag)
  also have "\<dots> \<le> Suc (max i j)" using 3(3) by simp
  finally show ?case by simp
qed simp_all

lemma osa_sym: "osa a b i j = osa b a j i"
proof (induction a b i j rule: osa.induct)
  case (3 a b i j)
  have h1: "osa a b i (Suc j) = osa b a (Suc j) i" by (rule 3(1))
  have h2: "osa a b (Suc i) j = osa b a j (Suc i)" by (rule 3(2))
  have h3: "osa a b i j = osa b a j i" by (rule 3(3))
  have h4: "osa_swap a b i j \<Longrightarrow> osa a b (i - 1) (j - 1) = osa b a (j - 1) (i - 1)"
    unfolding osa_swap_def by (rule 3(4)) auto
  have e: "(a ! i = b ! j) = (b ! j = a ! i)" by auto
  show ?case
  proof (cases "osa_swap a b i j")
    case True
    then have T': "osa_swap b a j i" by (simp add: osa_swap_sym)
    show ?thesis
      unfolding osa_Suc_swap [OF True] osa_Suc_swap [OF T'] h1 h2 h3 h4 [OF True] e
      by (simp only: min.commute)
  next
    case False
    then have F': "\<not> osa_swap b a j i" by (simp add: osa_swap_sym)
    show ?thesis
      unfolding osa_Suc_plain [OF False] osa_Suc_plain [OF F'] h1 h2 h3 e
      by (simp only: min.commute)
  qed
qed simp_all

lemma osa_zero:
  "i \<le> length a \<Longrightarrow> j \<le> length b \<Longrightarrow> osa a b i j = 0 \<Longrightarrow> i = j \<and> take i a = take j b"
proof (induction a b i j rule: osa.induct)
  case (3 a b i j)
  have z: "osa a b i j + (if a ! i = b ! j then 0 else 1) = 0"
    using 3(7) by (simp add: Let_def min_def split: if_splits)
  then have o: "osa a b i j = 0" and eq: "a ! i = b ! j" by (simp_all split: if_splits)
  have le: "i \<le> length a" "j \<le> length b" using 3(5,6) by simp_all
  from 3(3) [OF le o] have ij: "i = j" and tk: "take i a = take j b" by blast+
  have "take (Suc i) a = take i a @ [a ! i]" "take (Suc j) b = take j b @ [b ! j]"
    using 3(5,6) by (simp_all add: take_Suc_conv_app_nth)
  then show ?case using ij tk eq by simp
qed simp_all

section \<open>The value of \<open>measure\<close>\<close>

lemma new_engine: "engine_for lc input (new_LexicalDistance lc input)"
  by (simp add: engine_for_def new_LexicalDistance_def)

lemma measure_ld_fst:
  assumes "engine_for lc input ld"
  shows "fst (measure_ld lc ld option) = Some (int (distance_of lc input option))"
  using assms measure_rows_result(1) [of "ld_rows ld" "lc option" "lc input"]
  by (simp add: engine_for_def measure_ld_def distance_of_def Let_def)

lemma measure_ld_snd:
  assumes "engine_for lc input ld"
  shows "engine_for lc input (snd (measure_ld lc ld option))"
  using assms measure_rows_result(2) [of "ld_rows ld" "lc option" "lc input"]
  by (simp add: engine_for_def measure_ld_def Let_def)

lemma measure_seq_engine:
  "engine_for lc input ld \<Longrightarrow> engine_for lc input (measure_seq lc ld cs)"
  unfolding measure_seq_def
  by (induction cs arbitrary: ld) (simp_all add: measure_ld_snd)

lemma measured_eq: "measured lc input option = Some (int (distance_of lc input option))"
  unfolding measured_def by (rule measure_ld_fst [OF new_engine])

section \<open>The loop and the sort of \<open>suggestionList\<close>\<close>

lemma suggestion_step_eq:
  assumes "engine_for lc input ld"
  shows "suggestion_step lc (real (length input) / 2) option (obd, ld) =
     (if in_threshold lc input option then obj_set obd option (Some (int (distance_of lc input option)))
      else obd, snd (measure_ld lc ld option))"
  using measure_ld_fst [OF assms, of option]
  by (simp add: suggestion_step_def in_threshold_def num_le_def split_beta Let_def)

lemma suggestion_fold:
  assumes "engine_for lc input ld"
  shows "\<exists>obd'. fold (suggestion_step lc (real (length input) / 2)) options (obd, ld)
            = (obd', measure_seq lc ld options)
          \<and> map_of obd' = (\<lambda>k. if k \<in> set options \<and> in_threshold lc input k
                               then Some (Some (int (distance_of lc input k))) else map_of obd k)
          \<and> (distinct (map fst obd) \<longrightarrow> distinct (map fst obd'))"
  using assms
proof (induction options arbitrary: obd ld)
  case Nil
  show ?case by (simp add: measure_seq_def)
next
  case (Cons option options)
  define obd1 where "obd1 = (if in_threshold lc input option
      then obj_set obd option (Some (int (distance_of lc input option))) else obd)"
  define ld1 where "ld1 = snd (measure_ld lc ld option)"
  have e1: "engine_for lc input ld1" unfolding ld1_def by (rule measure_ld_snd [OF Cons.prems])
  have st: "suggestion_step lc (real (length input) / 2) option (obd, ld) = (obd1, ld1)"
    unfolding obd1_def ld1_def by (rule suggestion_step_eq [OF Cons.prems])
  from Cons.IH [OF e1, of obd1] obtain obd' where
    f: "fold (suggestion_step lc (real (length input) / 2)) options (obd1, ld1)
            = (obd', measure_seq lc ld1 options)"
    and m: "map_of obd' = (\<lambda>k. if k \<in> set options \<and> in_threshold lc input k
                               then Some (Some (int (distance_of lc input k))) else map_of obd1 k)"
    and d: "distinct (map fst obd1) \<longrightarrow> distinct (map fst obd')"
    by blast
  have m1: "map_of obd1 = (\<lambda>k. if k = option \<and> in_threshold lc input k
                               then Some (Some (int (distance_of lc input k))) else map_of obd k)"
    by (auto simp: obd1_def obj_set_def update_conv)
  have d1: "distinct (map fst obd) \<longrightarrow> distinct (map fst obd1)"
    by (simp add: obd1_def obj_set_def distinct_update)
  have "fold (suggestion_step lc (real (length input) / 2)) (option # options) (obd, ld)
            = (obd', measure_seq lc ld (option # options))"
    using f st by (simp add: measure_seq_def ld1_def)
  moreover have "map_of obd' = (\<lambda>k. if k \<in> set (option # options) \<and> in_threshold lc input k
                               then Some (Some (int (distance_of lc input k))) else map_of obd k)"
    unfolding m m1 by auto
  ultimately show ?case using d d1 by blast
qed

lemma set_object_keys: "set (object_keys obj) = fst ` set obj"
  by (auto simp: object_keys_def Let_def)

lemma distinct_object_keys: "distinct (map fst obj) \<Longrightarrow> distinct (object_keys obj)"
  by (auto simp: object_keys_def Let_def)

lemma set_sort_insert: "set (sort_insert c x ys) = insert x (set ys)"
  by (induction ys) auto

lemma distinct_sort_insert: "distinct (sort_insert c x ys) = (x \<notin> set ys \<and> distinct ys)"
  by (induction ys) (auto simp: set_sort_insert)

lemma sort_insert_cong:
  "(\<And>y. y \<in> set ys \<Longrightarrow> c x y = c' x y) \<Longrightarrow> sort_insert c x ys = sort_insert c' x ys"
  by (induction ys) auto

lemma set_sort_fold:
  "set (foldl (\<lambda>sorted x. sort_insert c x sorted) acc xs) = set acc \<union> set xs"
  by (induction xs arbitrary: acc) (auto simp: set_sort_insert)

lemma distinct_sort_fold:
  "distinct (foldl (\<lambda>sorted x. sort_insert c x sorted) acc xs)
     = (distinct acc \<and> distinct xs \<and> set acc \<inter> set xs = {})"
  by (induction xs arbitrary: acc) (auto simp: set_sort_insert distinct_sort_insert)

lemma sort_fold_cong:
  "(\<And>x y. x \<in> set acc \<union> set xs \<Longrightarrow> y \<in> set acc \<union> set xs \<Longrightarrow> c x y = c' x y) \<Longrightarrow>
     foldl (\<lambda>sorted x. sort_insert c x sorted) acc xs
       = foldl (\<lambda>sorted x. sort_insert c' x sorted) acc xs"
proof (induction xs arbitrary: acc)
  case Nil
  show ?case by simp
next
  case (Cons x xs)
  have "sort_insert c x acc = sort_insert c' x acc"
    by (rule sort_insert_cong) (simp add: Cons.prems)
  moreover have "foldl (\<lambda>sorted x. sort_insert c x sorted) (sort_insert c' x acc) xs
       = foldl (\<lambda>sorted x. sort_insert c' x sorted) (sort_insert c' x acc) xs"
    by (rule Cons.IH) (auto simp: set_sort_insert Cons.prems)
  ultimately show ?case by simp
qed

lemma sorted_sort_insert:
  assumes "consistent_compare c" and "sorted_wrt (\<lambda>x y. c x y \<le> 0) ys"
  shows "sorted_wrt (\<lambda>x y. c x y \<le> 0) (sort_insert c x ys)"
  using assms(2)
proof (induction ys)
  case Nil
  show ?case by simp
next
  case (Cons y ys)
  have anti: "\<And>u v. (c u v < 0) = (0 < c v u)"
    and trans: "\<And>u v w. c u v \<le> 0 \<Longrightarrow> c v w \<le> 0 \<Longrightarrow> c u w \<le> 0"
    using assms(1) unfolding consistent_compare_def by blast+
  show ?case
  proof (cases "c x y < 0")
    case True
    then have "c x y \<le> 0" by simp
    then have "\<forall>z\<in>set ys. c x z \<le> 0" using Cons.prems trans by auto
    then show ?thesis using True Cons.prems by simp
  next
    case False
    then have "c y x \<le> 0" using anti [of x y] by simp
    then show ?thesis using False Cons by (simp add: set_sort_insert)
  qed
qed

lemma sorted_sort_fold:
  assumes "consistent_compare c"
  shows "sorted_wrt (\<lambda>x y. c x y \<le> 0) acc \<Longrightarrow>
     sorted_wrt (\<lambda>x y. c x y \<le> 0) (foldl (\<lambda>sorted x. sort_insert c x sorted) acc xs)"
  by (induction xs arbitrary: acc) (simp_all add: sorted_sort_insert [OF assms])

lemma rank_compare_consistent:
  assumes "consistent_compare localeCompare"
  shows "consistent_compare (rank_compare lc localeCompare input)"
proof -
  have anti: "\<And>u v. (localeCompare u v < 0) = (0 < localeCompare v u)"
    and trans: "\<And>u v w. localeCompare u v \<le> 0 \<Longrightarrow> localeCompare v w \<le> 0 \<Longrightarrow> localeCompare u w \<le> 0"
    using assms unfolding consistent_compare_def by blast+
  have "(rank_compare lc localeCompare input x y < 0) = (0 < rank_compare lc localeCompare input y x)" for x y
    using anti [of x y] by (auto simp: rank_compare_def)
  moreover have "rank_compare lc localeCompare input x z \<le> 0"
    if "rank_compare lc localeCompare input x y \<le> 0" "rank_compare lc localeCompare input y z \<le> 0" for x y z
    using that trans [of x y z] by (auto simp: rank_compare_def split: if_splits)
  ultimately show ?thesis unfolding consistent_compare_def by blast
qed

lemma rank_compare_le:
  "rank_compare lc localeCompare input x y \<le> 0 \<longleftrightarrow>
     distance_of lc input x < distance_of lc input y
     \<or> (distance_of lc input x = distance_of lc input y \<and> localeCompare x y \<le> 0)"
  by (auto simp: rank_compare_def)

lemma loop_map:
  "\<exists>obd. suggestion_loop lc input options = (obd, measure_seq lc (new_LexicalDistance lc input) options)
     \<and> map_of obd = (\<lambda>k. if k \<in> set options \<and> in_threshold lc input k
                               then Some (Some (int (distance_of lc input k))) else None)
     \<and> distinct (map fst obd)"
proof -
  from suggestion_fold [OF new_engine, of lc input options "[]"] obtain obd where
    f: "fold (suggestion_step lc (real (length input) / 2)) options ([], new_LexicalDistance lc input)
          = (obd, measure_seq lc (new_LexicalDistance lc input) options)"
    and m: "map_of obd = (\<lambda>k. if k \<in> set options \<and> in_threshold lc input k
              then Some (Some (int (distance_of lc input k))) else map_of [] k)"
    and d: "distinct (map fst obd)"
    by auto
  have "suggestion_loop lc input options
      = (obd, measure_seq lc (new_LexicalDistance lc input) options)"
    using f by (simp add: suggestion_loop_def)
  moreover have "map_of obd = (\<lambda>k. if k \<in> set options \<and> in_threshold lc input k
              then Some (Some (int (distance_of lc input k))) else None)"
    unfolding m by (rule ext) simp
  ultimately show ?thesis using d by blast
qed

lemma loop_keys:
  "fst ` set (fst (suggestion_loop lc input options)) = {k \<in> set options. in_threshold lc input k}"
proof -
  obtain obd where m: "fst (suggestion_loop lc input options) = obd"
     "map_of obd = (\<lambda>k. if k \<in> set options \<and> in_threshold lc input k
                               then Some (Some (int (distance_of lc input k))) else None)"
    using loop_map [of lc input options] by auto
  have "fst ` set obd = dom (map_of obd)" by (simp add: dom_map_of_conv_image_fst)
  also have "\<dots> = {k \<in> set options. in_threshold lc input k}"
    unfolding m(2) by (auto simp: dom_def)
  finally show ?thesis using m(1) by simp
qed

lemma loop_get:
  "k \<in> set options \<Longrightarrow> in_threshold lc input k \<Longrightarrow>
     obj_get (fst (suggestion_loop lc input options)) k = Some (int (distance_of lc input k))"
  using loop_map [of lc input options] by (auto simp: obj_get_def)

lemma suggestionList_eq:
  "suggestionList lc localeCompare input options =
     foldl (\<lambda>sorted x. sort_insert (rank_compare lc localeCompare input) x sorted) []
       (object_keys (fst (suggestion_loop lc input options)))"
  unfolding suggestionList_def Let_def array_sort_def
proof (rule sort_fold_cong)
  fix x y
  let ?obd = "fst (suggestion_loop lc input options)"
  assume "x \<in> set [] \<union> set (object_keys ?obd)" "y \<in> set [] \<union> set (object_keys ?obd)"
  then have "x \<in> set options \<and> in_threshold lc input x" "y \<in> set options \<and> in_threshold lc input y"
    using loop_keys [of lc input options] by (auto simp: set_object_keys)
  then have "obj_get ?obd x = Some (int (distance_of lc input x))"
    "obj_get ?obd y = Some (int (distance_of lc input y))"
    by (simp_all add: loop_get)
  then show "sort_compare (\<lambda>a b. if num_sub (obj_get ?obd a) (obj_get ?obd b) \<noteq> Some 0
        then num_sub (obj_get ?obd a) (obj_get ?obd b) else Some (localeCompare a b)) x y
      = rank_compare lc localeCompare input x y"
    by (simp add: sort_compare_def num_sub_def rank_compare_def)
qed

lemma set_suggestionList:
  "set (suggestionList lc localeCompare input options) = {k \<in> set options. in_threshold lc input k}"
  by (simp add: suggestionList_eq set_sort_fold set_object_keys loop_keys)

lemma distinct_suggestionList: "distinct (suggestionList lc localeCompare input options)"
  using loop_map [of lc input options]
  by (auto simp: suggestionList_eq distinct_sort_fold intro: distinct_object_keys)

lemma sorted_suggestionList:
  assumes "consistent_compare localeCompare"
  shows "sorted_wrt (\<lambda>x y. rank_compare lc localeCompare input x y \<le> 0)
           (suggestionList lc localeCompare input options)"
  unfolding suggestionList_eq
  by (rule sorted_sort_fold [OF rank_compare_consistent [OF assms]]) simp

section \<open>The code unit order is a consistent comparator\<close>

lemma codeunit_compare_anti: "(codeunit_compare x y < 0) = (0 < codeunit_compare y x)"
  by (induction x y rule: codeunit_compare.induct) auto

lemma codeunit_compare_trans:
  "codeunit_compare x y \<le> 0 \<Longrightarrow> codeunit_compare y z \<le> 0 \<Longrightarrow> codeunit_compare x z \<le> 0"
proof (induction x arbitrary: y z)
  case Nil
  show ?case by (cases z) simp_all
next
  case (Cons a x)
  from Cons.prems obtain b y' where y: "y = b # y'" by (cases y) auto
  from Cons.prems y obtain c z' where z: "z = c # z'" by (cases z) auto
  show ?case using Cons.prems Cons.IH [of y' z'] unfolding y z
    by (auto split: if_splits)
qed

lemma codeunit_compare_consistent: "consistent_compare codeunit_compare"
  unfolding consistent_compare_def
  using codeunit_compare_anti codeunit_compare_trans by blast

section \<open>Properties of the distance\<close>

lemma distance_of_sym: "distance_of lc a b = distance_of lc b a"
  by (auto simp: distance_of_def osa_sym [of "lc b" "lc a"])

lemma distance_of_zero: "distance_of lc input option = 0 \<longleftrightarrow> option = input"
proof
  assume z: "distance_of lc input option = 0"
  show "option = input"
  proof (rule ccontr)
    assume ne: "option \<noteq> input"
    then have lne: "lc input \<noteq> lc option" using z by (auto simp: distance_of_def split: if_splits)
    with ne z have "osa (lc option) (lc input) (length (lc option)) (length (lc input)) = 0"
      by (auto simp: distance_of_def)
    from osa_zero [OF _ _ this] have "lc option = lc input" by simp
    with lne show False by simp
  qed
qed (simp add: distance_of_def)

lemma distance_of_le:
  assumes "length (lc a) = length a" "length (lc b) = length b"
  shows "distance_of lc a b \<le> max (length a) (length b)"
proof (cases "a = b")
  case True
  then show ?thesis by (simp add: distance_of_def)
next
  case False
  then have "0 < max (length a) (length b)" by (cases a; cases b) auto
  then show ?thesis
    using False osa_le_max [of "lc b" "lc a" "length b" "length a"] assms
    by (auto simp: distance_of_def max.commute)
qed

lemma in_threshold_self: "in_threshold lc input input"
  by (simp add: in_threshold_def distance_of_def)

lemma measured_threshold:
  "(\<exists>d. measured lc input option = Some d
        \<and> real_of_int d \<le> max (max (real (length input) / 2) (real (length option) / 2)) 1)
   \<longleftrightarrow> in_threshold lc input option"
  by (simp add: measured_eq in_threshold_def)

lemma measured_order:
  "(\<exists>dx dy. measured lc input x = Some dx \<and> measured lc input y = Some dy
        \<and> (dx < dy \<or> (dx = dy \<and> localeCompare x y \<le> 0)))
   \<longleftrightarrow> rank_compare lc localeCompare input x y \<le> 0"
  by (simp add: measured_eq rank_compare_le)

lemma distinct_singleton:
  assumes "set xs = {x}" and "distinct xs"
  shows "xs = [x]"
proof (cases xs)
  case Nil
  with assms(1) show ?thesis by simp
next
  case (Cons y ys)
  with assms have "y = x" "set ys \<subseteq> {x}" "y \<notin> set ys" by auto
  then have "ys = []" by (cases ys) auto
  with Cons \<open>y = x\<close> show ?thesis by simp
qed

section \<open>No call throws\<close>

lemma row_read_ok: "k < length rows \<Longrightarrow> row_read rows k j = Inr (arr_get (rows ! k) j)"
  by (simp add: row_read_def)

lemma row_write_ok:
  "k < length rows \<Longrightarrow> row_write rows k j v = Inr (rows[k := arr_set (rows ! k) j v])"
  by (simp add: row_write_def)

lemma andthen_Inr: "andthen (Inr x) f = f x"
  by (simp add: andthen_def)

lemma fold_exn_eq:
  assumes step: "\<And>x s. P s \<Longrightarrow> f x s = Inr (g x s)" and keep: "\<And>x s. P s \<Longrightarrow> P (g x s)"
  shows "P s \<Longrightarrow> fold_exn f xs s = Inr (fold g xs s)"
  by (induction xs arbitrary: s) (simp_all add: step keep andthen_Inr)

lemma length_measure_cell: "length (measure_cell a b i j rows) = length rows"
  by (simp add: measure_cell_def Let_def)

lemma measure_cell_exn_eq:
  assumes "length rows = 3"
  shows "measure_cell_exn a b i j rows = Inr (measure_cell a b i j rows)"
proof -
  have k: "(i - 1) mod 3 < length rows" "i mod 3 < length rows" "(i - 2) mod 3 < length rows"
    using assms by simp_all
  show ?thesis
    unfolding measure_cell_exn_def measure_cell_def Let_def
      row_read_ok [OF k(1)] row_read_ok [OF k(2)] row_read_ok [OF k(3)]
      row_write_ok [OF k(2)] andthen_Inr
    by (simp add: andthen_Inr)
qed

lemma length_measure_row: "length (measure_row a b i rows) = length rows"
proof -
  have "length (fold (measure_cell a b i) js s) = length s" for js s
    by (induction js arbitrary: s) (simp_all add: length_measure_cell)
  then show ?thesis by (simp add: measure_row_def)
qed

lemma measure_row_exn_eq:
  assumes "length rows = 3"
  shows "measure_row_exn a b i rows = Inr (measure_row a b i rows)"
proof -
  have k: "i mod 3 < length rows" using assms by simp
  have "fold_exn (measure_cell_exn a b i) [1..<Suc (length b)]
          (rows[i mod 3 := arr_set (rows ! (i mod 3)) 0 (Some (int i))])
      = Inr (fold (measure_cell a b i) [1..<Suc (length b)]
          (rows[i mod 3 := arr_set (rows ! (i mod 3)) 0 (Some (int i))]))"
    by (rule fold_exn_eq [where P = "\<lambda>s. length s = 3"])
       (simp_all add: measure_cell_exn_eq length_measure_cell assms)
  then show ?thesis
    unfolding measure_row_exn_def measure_row_def row_write_ok [OF k] andthen_Inr .
qed

lemma fold_row0:
  "0 < length rows \<Longrightarrow>
     fold (\<lambda>j rows. rows[0 := arr_set (rows ! 0) j (v j)]) js rows
       = rows[0 := fold (\<lambda>j row. arr_set row j (v j)) js (rows ! 0)]"
  by (induction js arbitrary: rows) simp_all

lemma length_measure_rows: "length (measure_rows a b rows) = length rows"
proof -
  have "length (fold (measure_row a b) is s) = length s" for "is" s
    by (induction "is" arbitrary: s) (simp_all add: length_measure_row)
  then show ?thesis by (simp add: measure_rows_def)
qed

lemma measure_rows_exn_eq:
  assumes "length rows = 3"
  shows "measure_rows_exn a b rows = Inr (measure_rows a b rows)"
proof -
  define init where
    "init = rows[0 := fold (\<lambda>j row. arr_set row j (Some (int j))) [0..<Suc (length b)] (rows ! 0)]"
  have "fold_exn (\<lambda>j rows. row_write rows 0 j (Some (int j))) [0..<Suc (length b)] rows
      = Inr (fold (\<lambda>j rows. rows[0 := arr_set (rows ! 0) j (Some (int j))]) [0..<Suc (length b)] rows)"
    by (rule fold_exn_eq [where P = "\<lambda>s. length s = 3"]) (simp_all add: row_write_ok assms)
  also have "fold (\<lambda>j rows. rows[0 := arr_set (rows ! 0) j (Some (int j))]) [0..<Suc (length b)] rows
      = init"
    unfolding init_def by (rule fold_row0) (simp add: assms)
  finally have i: "fold_exn (\<lambda>j rows. row_write rows 0 j (Some (int j))) [0..<Suc (length b)] rows
      = Inr init" .
  have l: "length init = 3" by (simp add: init_def assms)
  have "fold_exn (measure_row_exn a b) [1..<Suc (length a)] init
      = Inr (fold (measure_row a b) [1..<Suc (length a)] init)"
    by (rule fold_exn_eq [where P = "\<lambda>s. length s = 3"])
       (simp_all add: measure_row_exn_eq length_measure_row l)
  then show ?thesis
    unfolding measure_rows_exn_def measure_rows_def i andthen_Inr init_def .
qed

lemma measure_exn_eq:
  assumes "length (ld_rows self) = 3"
  shows "measure_exn lc self option = Inr (measure_ld lc self option)"
proof -
  have "aLength mod 3 < length (measure_rows a b (ld_rows self))" for a b aLength
    by (simp add: length_measure_rows assms)
  then show ?thesis
    by (simp add: measure_exn_def measure_ld_def Let_def measure_rows_exn_eq [OF assms]
        andthen_Inr row_read_ok)
qed

lemma suggestion_step_exn_eq:
  assumes "engine_for lc input (snd state)"
  shows "suggestion_step_exn lc t option state = Inr (suggestion_step lc t option state)"
proof -
  have "length (ld_rows (snd state)) = 3" using assms by (simp add: engine_for_def)
  then show ?thesis
    by (simp add: suggestion_step_exn_def suggestion_step_def measure_exn_eq andthen_Inr
        split_beta Let_def)
qed

lemma suggestion_step_engine:
  assumes "engine_for lc input (snd state)"
  shows "engine_for lc input (snd (suggestion_step lc t option state))"
  using measure_ld_snd [OF assms, of option]
  by (simp add: suggestion_step_def split_beta Let_def)

lemma suggestionList_exn_eq:
  "suggestionList_exn lc localeCompare input options
     = Inr (suggestionList lc localeCompare input options)"
proof -
  have "fold_exn (suggestion_step_exn lc (real (length input) / 2)) options
          ([], new_LexicalDistance lc input)
      = Inr (fold (suggestion_step lc (real (length input) / 2)) options
          ([], new_LexicalDistance lc input))"
    by (rule fold_exn_eq [where P = "\<lambda>s. engine_for lc input (snd s)"])
       (simp_all add: suggestion_step_exn_eq suggestion_step_engine new_engine)
  then show ?thesis
    by (simp add: suggestionList_exn_def suggestionList_def suggestion_loop_def Let_def
        andthen_Inr split_beta)
qed

text \<open>
  The exception is within reach of the functions of this section: an engine with two rows
  only raises it at the third row of the table.
\<close>

lemma measure_exn_two_rows:
  "measure_exn toLowerCase ((new_LexicalDistance toLowerCase (str ''ab''))\<lparr>ld_rows := [[], []]\<rparr>)
     (str ''xyz'') = Inl TypeError"
  by code_simp

section \<open>The claims\<close>

text \<open>
  C1. For every input and every list of options, an option is in the returned list if and
  only if its measured distance is at most \<open>max(input.length / 2, option.length / 2, 1)\<close>,
  the halves being exact fractions; and the returned list is in ascending order of that
  distance, options of equal distance being in ascending order of \<open>localeCompare\<close>. The
  order holds for every consistent \<open>localeCompare\<close>, the membership for every one.
\<close>

theorem suggestionList_filtered_and_sorted:
  assumes "consistent_compare localeCompare"
  shows "(\<forall>option \<in> set options.
            option \<in> set (suggestionList lc localeCompare input options) \<longleftrightarrow>
            (\<exists>d. measured lc input option = Some d
                 \<and> real_of_int d \<le> max (max (real (length input) / 2) (real (length option) / 2)) 1))
       \<and> sorted_wrt
           (\<lambda>x y. \<exists>dx dy. measured lc input x = Some dx \<and> measured lc input y = Some dy
                     \<and> (dx < dy \<or> (dx = dy \<and> localeCompare x y \<le> 0)))
           (suggestionList lc localeCompare input options)"
  unfolding measured_threshold measured_order
  using sorted_suggestionList [OF assms] by (simp add: set_suggestionList)

theorem suggestionList_filtered_and_sorted_witness:
  "consistent_compare codeunit_compare
   \<and> suggestionList toLowerCase codeunit_compare (str ''cat'')
        [str ''cap'', str ''xxxxxxxx'', str ''bat'', str ''CAT''] = [str ''CAT'', str ''bat'', str ''cap'']
   \<and> (\<exists>d. measured toLowerCase (str ''cat'') (str ''cap'') = Some d
          \<and> real_of_int d \<le> max (max (real (length (str ''cat'')) / 2) (real (length (str ''cap'')) / 2)) 1)
   \<and> \<not> (\<exists>d. measured toLowerCase (str ''cat'') (str ''xxxxxxxx'') = Some d
          \<and> real_of_int d
              \<le> max (max (real (length (str ''cat'')) / 2) (real (length (str ''xxxxxxxx'')) / 2)) 1)
   \<and> sorted_wrt
           (\<lambda>x y. \<exists>dx dy. measured toLowerCase (str ''cat'') x = Some dx
                     \<and> measured toLowerCase (str ''cat'') y = Some dy
                     \<and> (dx < dy \<or> (dx = dy \<and> codeunit_compare x y \<le> 0)))
           [str ''CAT'', str ''bat'', str ''cap'']"
proof -
  let ?options = "[str ''cap'', str ''xxxxxxxx'', str ''bat'', str ''CAT'']"
  let ?result = "[str ''CAT'', str ''bat'', str ''cap'']"
  have e: "suggestionList toLowerCase codeunit_compare (str ''cat'') ?options = ?result"
    by code_simp
  have i: "str ''cap'' \<in> set ?result" by simp
  have n: "str ''xxxxxxxx'' \<notin> set ?result" by code_simp
  note t = suggestionList_filtered_and_sorted [OF codeunit_compare_consistent,
      of ?options toLowerCase "str ''cat''", unfolded e]
  from t have m: "\<forall>option \<in> set ?options. option \<in> set ?result \<longleftrightarrow>
      (\<exists>d. measured toLowerCase (str ''cat'') option = Some d
           \<and> real_of_int d \<le> max (max (real (length (str ''cat'')) / 2) (real (length option) / 2)) 1)"
    by (rule conjunct1)
  have "str ''cap'' \<in> set ?options" "str ''xxxxxxxx'' \<in> set ?options" by simp_all
  from m [rule_format, OF this(1)] m [rule_format, OF this(2)] i n
  have "\<exists>d. measured toLowerCase (str ''cat'') (str ''cap'') = Some d
          \<and> real_of_int d \<le> max (max (real (length (str ''cat'')) / 2) (real (length (str ''cap'')) / 2)) 1"
    and "\<not> (\<exists>d. measured toLowerCase (str ''cat'') (str ''xxxxxxxx'') = Some d
          \<and> real_of_int d
              \<le> max (max (real (length (str ''cat'')) / 2) (real (length (str ''xxxxxxxx'')) / 2)) 1)"
    by blast+
  with codeunit_compare_consistent e t [THEN conjunct2] show ?thesis by blast
qed

text \<open>
  C2. The claim is that \<open>measure\<close> returns the least number of edits (insertion, deletion,
  substitution, swap of two adjacent characters) between the lowercase forms, whenever these
  differ. At the input \<open>ca\<close> and the option \<open>abc\<close> the lowercase forms differ and
  \<open>measure\<close> returns 3, while two edits lead from \<open>abc\<close> to \<open>ca\<close>: the deletion of
  \<open>b\<close>, then the swap of \<open>a\<close> and \<open>c\<close>. The recurrence of \<open>measure\<close> never edits
  again what a swap has produced. With two more characters in front the ranker drops an
  option whose two edits are within the threshold \<open>2.5\<close>.
\<close>

theorem measure_not_minimal_edits:
  "toLowerCase (str ''abc'') \<noteq> toLowerCase (str ''ca'')
   \<and> measured toLowerCase (str ''ca'') (str ''abc'') = Some 3
   \<and> edit (toLowerCase (str ''abc'')) (str ''ac'') \<and> edit (str ''ac'') (toLowerCase (str ''ca''))
   \<and> min_edits (toLowerCase (str ''abc'')) (toLowerCase (str ''ca'')) \<le> 2
   \<and> measured toLowerCase (str ''xxca'') (str ''xxabc'') = Some 3
   \<and> suggestionList toLowerCase codeunit_compare (str ''xxca'') [str ''xxabc''] = []"
proof -
  have a: "toLowerCase (str ''abc'') = [97, 98, 99]" "toLowerCase (str ''ca'') = [99, 97]"
    "str ''ac'' = [97, 99]" by code_simp+
  have d: "edit ([97] @ 98 # [99 :: codeunit]) ([97] @ [99])" by (rule edit.deletion)
  have t: "edit ([] @ 97 # 99 # ([] :: jsstring)) ([] @ 99 # 97 # [])"
    by (rule edit.transposition)
  from d t have "(edit OO edit) [97, 98, 99 :: codeunit] [99, 97]" by auto
  then have "(edit ^^ 2) [97, 98, 99 :: codeunit] [99, 97]"
    by (simp add: eval_nat_numeral eq_OO)
  then have m: "min_edits [97, 98, 99 :: codeunit] [99, 97] \<le> 2"
    unfolding min_edits_def by (rule Least_le)
  have "measured toLowerCase (str ''ca'') (str ''abc'') = Some 3" by code_simp
  moreover have "toLowerCase (str ''abc'') \<noteq> toLowerCase (str ''ca'')" by code_simp
  moreover have "measured toLowerCase (str ''xxca'') (str ''xxabc'') = Some 3" by code_simp
  moreover have "suggestionList toLowerCase codeunit_compare (str ''xxca'') [str ''xxabc''] = []"
    by code_simp
  ultimately show ?thesis using d t m unfolding a by simp
qed

text \<open>
  C3. For every string \<open>s\<close> and every case variant \<open>s'\<close> of it (equal lowercase forms,
  \<open>s'\<close> different from \<open>s\<close>), \<open>measure\<close> on an engine constructed with \<open>s\<close> returns
  exactly 1 for \<open>s'\<close>, after any earlier calls. The witness is \<open>ID\<close> and \<open>id\<close>, whose
  plain Levenshtein distance is 2.
\<close>

theorem case_variant_distance_one:
  assumes "lc s' = lc s" and "s' \<noteq> s"
  shows "fst (measure_ld lc (measure_seq lc (new_LexicalDistance lc s) earlier) s') = Some 1"
  using assms measure_ld_fst [OF measure_seq_engine [OF new_engine], of lc s earlier s']
  by (simp add: distance_of_def)

theorem case_variant_distance_one_witness:
  "toLowerCase (str ''id'') = toLowerCase (str ''ID'') \<and> str ''id'' \<noteq> str ''ID''
   \<and> fst (measure_ld toLowerCase
        (measure_seq toLowerCase (new_LexicalDistance toLowerCase (str ''ID'')) [str ''name''])
        (str ''id'')) = Some 1
   \<and> plain_levenshtein (str ''ID'') (str ''id'') = 2"
proof -
  have h1: "toLowerCase (str ''id'') = toLowerCase (str ''ID'')" by code_simp
  have h2: "str ''id'' \<noteq> str ''ID''" by code_simp
  have h3: "plain_levenshtein (str ''ID'') (str ''id'') = 2" by code_simp
  from case_variant_distance_one [OF h1 h2] h1 h2 h3 show ?thesis by simp
qed

text \<open>
  C4, as amended. For every pair of strings the measured distance is a non-negative
  integer; it is at most the greater of the two lengths whenever lowercasing keeps the
  length of both strings; and the distance of a string to itself is 0.
\<close>

theorem measure_bound_when_case_keeps_length:
  "(\<exists>n. measured lc a b = Some (int n)
        \<and> (length (lc a) = length a \<and> length (lc b) = length b \<longrightarrow> n \<le> max (length a) (length b)))
   \<and> measured lc a a = Some 0"
  using distance_of_le [of lc a b] by (simp add: measured_eq distance_of_def)

theorem measure_bound_when_case_keeps_length_witness:
  "length (toLowerCase (str ''Kitten'')) = length (str ''Kitten'')
   \<and> length (toLowerCase (str ''sitting'')) = length (str ''sitting'')
   \<and> measured toLowerCase (str ''Kitten'') (str ''sitting'') = Some 3
   \<and> (3::nat) \<le> max (length (str ''Kitten'')) (length (str ''sitting''))
   \<and> measured toLowerCase (str ''Kitten'') (str ''Kitten'') = Some 0"
proof -
  have h: "length (toLowerCase (str ''Kitten'')) = length (str ''Kitten'')
     \<and> length (toLowerCase (str ''sitting'')) = length (str ''sitting'')"
    by code_simp
  have v: "measured toLowerCase (str ''Kitten'') (str ''sitting'') = Some 3" by code_simp
  from measure_bound_when_case_keeps_length [of toLowerCase "str ''Kitten''" "str ''sitting''"] h v
  show ?thesis by auto
qed

text \<open>
  The bound by the lengths of the two strings themselves fails where lowercasing makes a
  string longer: the engine constructed with the one code unit U+0130 measures the distance
  of the empty string on the two code units of the lowercase form, and returns 2.
\<close>

theorem measure_bound_counterexample:
  "measured toLowerCase [0x130] [] = Some 2
   \<and> \<not> (2 \<le> int (max (length [0x130 :: codeunit]) (length ([] :: jsstring))))"
  by code_simp

text \<open>
  C5. The returned list holds only strings of the list of options and holds none twice;
  and the distance recorded for a returned string is the one that \<open>measure\<close> returned at
  the last occurrence of the string among the options, on the engine as the earlier options
  left it.
\<close>

theorem suggestionList_subset_distinct_last:
  "set (suggestionList lc localeCompare input options) \<subseteq> set options
   \<and> distinct (suggestionList lc localeCompare input options)
   \<and> (\<forall>earlier option later.
         options = earlier @ option # later \<and> option \<notin> set later
         \<and> option \<in> set (suggestionList lc localeCompare input options) \<longrightarrow>
         obj_get (fst (suggestion_loop lc input options)) option
           = fst (measure_ld lc (snd (suggestion_loop lc input earlier)) option))"
proof -
  have "obj_get (fst (suggestion_loop lc input options)) option
           = fst (measure_ld lc (snd (suggestion_loop lc input earlier)) option)"
    if "option \<in> set (suggestionList lc localeCompare input options)" for earlier option
  proof -
    from that have "option \<in> set options" "in_threshold lc input option"
      by (simp_all add: set_suggestionList)
    then have "obj_get (fst (suggestion_loop lc input options)) option
        = Some (int (distance_of lc input option))"
      by (rule loop_get)
    moreover have "snd (suggestion_loop lc input earlier)
        = measure_seq lc (new_LexicalDistance lc input) earlier"
      using loop_map [of lc input earlier] by auto
    ultimately show ?thesis
      by (simp add: measure_ld_fst [OF measure_seq_engine [OF new_engine]])
  qed
  then show ?thesis
    by (auto simp: set_suggestionList distinct_suggestionList)
qed

theorem suggestionList_subset_distinct_last_witness:
  "[str ''cap'', str ''bat'', str ''cap''] = [str ''cap'', str ''bat''] @ str ''cap'' # []
   \<and> str ''cap'' \<notin> set []
   \<and> str ''cap'' \<in> set (suggestionList toLowerCase codeunit_compare (str ''cat'')
        [str ''cap'', str ''bat'', str ''cap''])
   \<and> suggestionList toLowerCase codeunit_compare (str ''cat'') [str ''cap'', str ''bat'', str ''cap'']
        = [str ''bat'', str ''cap'']
   \<and> obj_get (fst (suggestion_loop toLowerCase (str ''cat'') [str ''cap'', str ''bat'', str ''cap'']))
        (str ''cap'')
        = fst (measure_ld toLowerCase
            (snd (suggestion_loop toLowerCase (str ''cat'') [str ''cap'', str ''bat''])) (str ''cap''))"
proof -
  have e: "suggestionList toLowerCase codeunit_compare (str ''cat'') [str ''cap'', str ''bat'', str ''cap'']
        = [str ''bat'', str ''cap'']"
    by code_simp
  have h: "[str ''cap'', str ''bat'', str ''cap''] = [str ''cap'', str ''bat''] @ str ''cap'' # []
     \<and> str ''cap'' \<notin> set []
     \<and> str ''cap'' \<in> set (suggestionList toLowerCase codeunit_compare (str ''cat'')
          [str ''cap'', str ''bat'', str ''cap''])"
    unfolding e by simp
  from suggestionList_subset_distinct_last [of toLowerCase codeunit_compare "str ''cat''"
      "[str ''cap'', str ''bat'', str ''cap'']"] h e
  show ?thesis by blast
qed

text \<open>
  C6. The measured distance between \<open>ab\<close> and \<open>ba\<close> is exactly 1, in both directions;
  their plain Levenshtein distance is 2.
\<close>

theorem transposition_distance_one:
  "measured toLowerCase (str ''ab'') (str ''ba'') = Some 1
   \<and> measured toLowerCase (str ''ba'') (str ''ab'') = Some 1
   \<and> plain_levenshtein (str ''ab'') (str ''ba'') = 2"
  by code_simp

text \<open>
  C7. For every pair of strings \<open>a\<close> and \<open>b\<close>, the distance of \<open>b\<close> measured by an engine
  constructed with \<open>a\<close> is the distance of \<open>a\<close> measured by an engine constructed with
  \<open>b\<close>.
\<close>

theorem measure_symmetric: "measured lc a b = measured lc b a"
  by (simp add: measured_eq distance_of_sym [of lc a b])

text \<open>
  C8. For every engine input, every sequence of earlier calls of \<open>measure\<close> on the engine
  and every option, the call returns what a freshly constructed engine returns; and so it
  does whatever the three rows hold when the call starts, holes included, since the call
  writes every cell before it reads it.
\<close>

theorem measure_independent_of_earlier_calls:
  "fst (measure_ld lc (measure_seq lc (new_LexicalDistance lc input) earlier) option)
     = fst (measure_ld lc (new_LexicalDistance lc input) option)
   \<and> (\<forall>rows. length rows = 3 \<longrightarrow>
        fst (measure_ld lc ((new_LexicalDistance lc input)\<lparr>ld_rows := rows\<rparr>) option)
          = fst (measure_ld lc (new_LexicalDistance lc input) option))"
proof -
  have "engine_for lc input ((new_LexicalDistance lc input)\<lparr>ld_rows := rows\<rparr>)"
    if "length rows = 3" for rows
    using that by (simp add: engine_for_def new_LexicalDistance_def)
  then show ?thesis
    using measure_seq_engine [OF new_engine, of lc input earlier]
    by (simp add: measure_ld_fst [of lc input] new_engine)
qed

theorem measure_independent_of_earlier_calls_witness:
  "length [[], [None], [Some 7, None, Some 0 :: number]] = 3
   \<and> fst (measure_ld toLowerCase
        ((new_LexicalDistance toLowerCase (str ''abc''))\<lparr>ld_rows := [[], [None], [Some 7, None, Some 0]]\<rparr>)
        (str ''acbd'')) = Some 2
   \<and> fst (measure_ld toLowerCase
        (measure_seq toLowerCase (new_LexicalDistance toLowerCase (str ''abc'')) [str ''xyzzy'', str ''b''])
        (str ''acbd'')) = Some 2
   \<and> fst (measure_ld toLowerCase (new_LexicalDistance toLowerCase (str ''abc'')) (str ''acbd'')) = Some 2"
proof -
  have l: "length [[], [None], [Some 7, None, Some 0 :: number]] = 3" by simp
  have v: "fst (measure_ld toLowerCase (new_LexicalDistance toLowerCase (str ''abc'')) (str ''acbd''))
      = Some 2"
    by code_simp
  from measure_independent_of_earlier_calls
    [of toLowerCase "str ''abc''" "[str ''xyzzy'', str ''b'']" "str ''acbd''"] l v
  show ?thesis by metis
qed

text \<open>
  C9. For every input and every list of options, the empty string and the empty list
  included, \<open>suggestionList\<close> returns a list and raises no exception: no property access of
  \<open>measure\<close> meets a row that is undefined. For the empty input and the one empty option
  the list is that option; for no options it is empty.
\<close>

theorem suggestionList_never_raises:
  "(\<exists>result. suggestionList_exn lc localeCompare input options = Inr result)
   \<and> suggestionList_exn lc localeCompare (str '''') [str ''''] = Inr [str '''']
   \<and> suggestionList_exn lc localeCompare (str ''abc'') [] = Inr []"
proof -
  have "set (suggestionList lc localeCompare (str '''') [str '''']) = {str ''''}"
    using in_threshold_self [of lc "str ''''"] by (auto simp: set_suggestionList)
  then have 1: "suggestionList lc localeCompare (str '''') [str ''''] = [str '''']"
    using distinct_suggestionList [of lc localeCompare "str ''''" "[str '''']"]
    by (intro distinct_singleton)
  have 2: "suggestionList lc localeCompare (str ''abc'') [] = []"
    using set_suggestionList [of lc localeCompare "str ''abc''" "[]"] by simp
  show ?thesis by (simp add: suggestionList_exn_eq 1 2)
qed

text \<open>
  C10. For every engine input, every sequence of earlier calls and every option,
  \<open>measure\<close> returns 0 if and only if the option is the input, code unit for code unit;
  and whenever the input is among the options, it is the first element of the returned
  list, for every consistent \<open>localeCompare\<close>.
\<close>

theorem exact_match_zero_and_first:
  "(fst (measure_ld lc (measure_seq lc (new_LexicalDistance lc input) earlier) option) = Some 0
      \<longleftrightarrow> option = input)
   \<and> (consistent_compare localeCompare \<and> input \<in> set options \<longrightarrow>
        (\<exists>rest. suggestionList lc localeCompare input options = input # rest))"
proof -
  have a: "fst (measure_ld lc (measure_seq lc (new_LexicalDistance lc input) earlier) option) = Some 0
      \<longleftrightarrow> option = input"
    by (simp add: measure_ld_fst [OF measure_seq_engine [OF new_engine]] distance_of_zero)
  have b: "\<exists>rest. suggestionList lc localeCompare input options = input # rest"
    if c: "consistent_compare localeCompare" and i: "input \<in> set options"
  proof -
    let ?r = "suggestionList lc localeCompare input options"
    have m: "input \<in> set ?r" using i in_threshold_self by (simp add: set_suggestionList)
    then obtain x rest where r: "?r = x # rest" by (cases ?r) auto
    have "x = input"
    proof (rule ccontr)
      assume ne: "x \<noteq> input"
      then have "input \<in> set rest" using m r by simp
      moreover have "sorted_wrt (\<lambda>x y. rank_compare lc localeCompare input x y \<le> 0) (x # rest)"
        using sorted_suggestionList [OF c, of lc input options] r by simp
      ultimately have "rank_compare lc localeCompare input x input \<le> 0" by simp
      then have "distance_of lc input x = 0"
        by (simp add: rank_compare_le distance_of_zero [of lc input input, THEN iffD2])
      with ne show False by (simp add: distance_of_zero)
    qed
    then show ?thesis using r by simp
  qed
  from a b show ?thesis by blast
qed

theorem exact_match_zero_and_first_witness:
  "consistent_compare codeunit_compare
   \<and> str ''cat'' \<in> set [str ''bat'', str ''Cat'', str ''cat'']
   \<and> suggestionList toLowerCase codeunit_compare (str ''cat'') [str ''bat'', str ''Cat'', str ''cat'']
        = str ''cat'' # [str ''Cat'', str ''bat'']
   \<and> fst (measure_ld toLowerCase
        (measure_seq toLowerCase (new_LexicalDistance toLowerCase (str ''cat'')) [str ''bat'', str ''Cat''])
        (str ''cat'')) = Some 0"
proof -
  have e: "suggestionList toLowerCase codeunit_compare (str ''cat'') [str ''bat'', str ''Cat'', str ''cat'']
        = str ''cat'' # [str ''Cat'', str ''bat'']"
    by code_simp
  have i: "str ''cat'' \<in> set [str ''bat'', str ''Cat'', str ''cat'']" by simp
  from exact_match_zero_and_first [of toLowerCase "str ''cat''" "[str ''bat'', str ''Cat'']" "str ''cat''"
      codeunit_compare "[str ''bat'', str ''Cat'', str ''cat'']"]
    codeunit_compare_consistent i e
  show ?thesis by simp
qed

end
